theory Spec2Isabelle
  imports Complex_Main "HOL-Library.Char_ord" "HOL-Library.List_Lexorder"
    "HOL-Library.Product_Lexorder"
begin

section \<open>Floating-point cells\<close>

text \<open>
  A cell of a float64 column, as the pipeline of \<^verbatim>\<open>build_tableau_files.py\<close> sees it.
  \<open>Fin r\<close> is a finite float of value \<open>r\<close> (\<open>Fin 0\<close> is the positive zero),
  \<open>NegZero\<close> is the negative zero, \<open>PInf\<close> and \<open>NInf\<close> are the two infinities and
  \<open>NaN\<close> is the not-a-number value, which is also how pandas stores a missing (null)
  numeric cell.
\<close>

datatype pyfloat = Fin real | NegZero | PInf | NInf | NaN

text \<open>\<^verbatim>\<open>pd.isna(x)\<close> on a float: true for NaN only (infinities are not missing).\<close>

fun isna :: "pyfloat \<Rightarrow> bool" where
  "isna NaN = True"
| "isna _ = False"

text \<open>
  \<^verbatim>\<open>x < c\<close> for a float \<open>x\<close> and an integer literal \<open>c\<close>: Python compares the exact
  values; every comparison with NaN is false.
\<close>

fun py_lt :: "pyfloat \<Rightarrow> real \<Rightarrow> bool" where
  "py_lt (Fin a) c = (a < c)"
| "py_lt NegZero c = (0 < c)"
| "py_lt PInf c = False"
| "py_lt NInf c = True"
| "py_lt NaN c = False"

text \<open>The value of a finite float (both zeros have the value 0).\<close>

fun fval :: "pyfloat \<Rightarrow> real" where
  "fval (Fin a) = a"
| "fval _ = 0"

section \<open>The affordability band\<close>

text \<open>
  The five labels that \<^verbatim>\<open>affordability_band\<close> returns. The source writes the ranges
  with an en dash (U+2013), which is the three bytes E2 80 93 in UTF-8.
\<close>

definition en_dash :: string where
  "en_dash = [CHR 0xE2, CHR 0x80, CHR 0x93]"

definition Unknown :: string where
  "Unknown = ''Unknown''"

definition More_Affordable :: string where
  "More_Affordable = ''More Affordable (<4x)''"

definition Stretched :: string where
  "Stretched = ''Stretched (4'' @ en_dash @ ''6x)''"

definition High_Risk :: string where
  "High_Risk = ''High Risk (6'' @ en_dash @ ''8x)''"

definition Severe_Risk :: string where
  "Severe_Risk = ''Severe Risk (8x+)''"

text \<open>
  \<^verbatim>\<open>
  def affordability_band(ratio):
      if pd.isna(ratio):
          return "Unknown"
      if ratio < 4:
          return "More Affordable (<4x)"
      if ratio < 6:
          return "Stretched (4-6x)"
      if ratio < 8:
          return "High Risk (6-8x)"
      return "Severe Risk (8x+)"
  \<close>
\<close>

definition affordability_band :: "pyfloat \<Rightarrow> string" where
  "affordability_band ratio =
     (if isna ratio then Unknown
      else if py_lt ratio 4 then More_Affordable
      else if py_lt ratio 6 then Stretched
      else if py_lt ratio 8 then High_Risk
      else Severe_Risk)"

section \<open>Tables of the pipeline\<close>

text \<open>
  Every table of \<^verbatim>\<open>main\<close> downstream of the spatial assignment has the integer column
  \<^verbatim>\<open>Ward\<close>. The income table, after \<^verbatim>\<open>main\<close> made \<^verbatim>\<open>Ward\<close> an integer, has in
  addition \<^verbatim>\<open>Average_Household_Income\<close>, on which \<^verbatim>\<open>pd.to_numeric(errors="coerce")\<close> has
  turned every unreadable cell into NaN.
\<close>

record ward_keyed =
  Ward :: int

record income_row = ward_keyed +
  Average_Household_Income :: pyfloat

text \<open>
  A row of \<^verbatim>\<open>ward_agg\<close>: the four aggregates of \<^verbatim>\<open>groupby("Ward").agg(...)\<close> and the
  cells of the \<^verbatim>\<open>StyleShare_*\<close> columns that the left merge with the pivot adds, each
  with the category it belongs to.
\<close>

record agg_row = ward_keyed +
  Listings :: nat
  Median_List_Price :: pyfloat
  Mean_List_Price :: pyfloat
  Median_WalkScore :: pyfloat
  StyleShare :: "(string \<times> pyfloat) list"

record dashboard_row =
  inc :: income_row
  agg :: agg_row
  Affordability_Ratio :: pyfloat
  Affordability_Band :: string

section \<open>The affordability ratio\<close>

fun is_zero :: "pyfloat \<Rightarrow> bool" where
  "is_zero (Fin a) = (a = 0)"
| "is_zero NegZero = True"
| "is_zero _ = False"

fun is_inf :: "pyfloat \<Rightarrow> bool" where
  "is_inf PInf = True"
| "is_inf NInf = True"
| "is_inf _ = False"

text \<open>The sign bit of a float that is not NaN.\<close>

fun sign_bit :: "pyfloat \<Rightarrow> bool" where
  "sign_bit (Fin a) = (a < 0)"
| "sign_bit NegZero = True"
| "sign_bit NInf = True"
| "sign_bit _ = False"

text \<open>
  \<^verbatim>\<open>dashboard["Median_List_Price"] / dashboard["Average_Household_Income"]\<close> is the
  element-wise division of two numeric columns, which follows IEEE 754 and never raises:
  NaN propagates, 0/0 and inf/inf are NaN, a non-zero value over a zero is an infinity
  with the sign of the quotient, a finite value over an infinity is a zero. The quotient
  of two finite non-zero floats is kept exact here: its rounding is not modelled.
\<close>

definition fdiv :: "pyfloat \<Rightarrow> pyfloat \<Rightarrow> pyfloat" where
  "fdiv x y =
     (if isna x \<or> isna y then NaN
      else if is_zero y then
        (if is_zero x then NaN else if sign_bit x = sign_bit y then PInf else NInf)
      else if is_inf y then
        (if is_inf x then NaN else if sign_bit x = sign_bit y then Fin 0 else NegZero)
      else if is_inf x then (if sign_bit x = sign_bit y then PInf else NInf)
      else if is_zero x then (if sign_bit x = sign_bit y then Fin 0 else NegZero)
      else Fin (fval x / fval y))"

text \<open>\<^verbatim>\<open>income.dropna(subset=["Average_Household_Income"])\<close>\<close>

definition dropna_income :: "income_row list \<Rightarrow> income_row list" where
  "dropna_income income = filter (\<lambda>r. \<not> isna (Average_Household_Income r)) income"

text \<open>
  \<^verbatim>\<open>left.merge(right, on="Ward", how="inner")\<close>: every pair of a left row and a right row
  with the same key, in the order of the left rows.
\<close>

definition merge_inner :: "income_row list \<Rightarrow> agg_row list \<Rightarrow> (income_row \<times> agg_row) list" where
  "merge_inner left right =
     concat (map (\<lambda>l. map (Pair l) (filter (\<lambda>r. Ward r = Ward l) right)) left)"

text \<open>
  \<^verbatim>\<open>
  dashboard = income.merge(ward_agg, on="Ward", how="inner")
  dashboard["Affordability_Ratio"] =
      dashboard["Median_List_Price"] / dashboard["Average_Household_Income"]
  dashboard["Affordability_Band"] = dashboard["Affordability_Ratio"].apply(affordability_band)
  \<close>
  where \<^verbatim>\<open>income\<close> has lost its rows without an income. The column \<^verbatim>\<open>Ward_Label\<close>,
  a rendering of \<^verbatim>\<open>Ward\<close>, is left out.
\<close>

definition derive_row :: "income_row \<times> agg_row \<Rightarrow> dashboard_row" where
  "derive_row p =
     (let ratio = fdiv (Median_List_Price (snd p)) (Average_Household_Income (fst p))
      in \<lparr>inc = fst p, agg = snd p, Affordability_Ratio = ratio,
          Affordability_Band = affordability_band ratio\<rparr>)"

definition dashboard :: "income_row list \<Rightarrow> agg_row list \<Rightarrow> dashboard_row list" where
  "dashboard income ward_agg = map derive_row (merge_inner (dropna_income income) ward_agg)"

section \<open>Spatial assignment\<close>

text \<open>
  A listing row as \<^verbatim>\<open>main\<close> hands it to the assignment: the coordinates (\<open>None\<close> is a
  missing cell), the parsed price, the walk score and the listing style (the renamed
  \<^verbatim>\<open>ward\<close> column of the input), both optional. A ward polygon is the dictionary
  \<^verbatim>\<open>{"ward_id": ..., "geometry": ...}\<close>. The geometry and its test
  \<^verbatim>\<open>poly.covers(pt)\<close> belong to the geometry library: the polygons are of any type
  \<open>'poly\<close> and the test is the parameter \<open>covers\<close>. A point is (x = longitude,
  y = latitude).
\<close>

record listing =
  latitude :: "real option"
  longitude :: "real option"
  Price :: real
  walkScore :: "real option"
  Listing_Style :: "string option"

record 'poly ward_polygon =
  ward_id :: int
  geometry :: 'poly

record assigned_row = ward_keyed +
  row :: listing

type_synonym point = "real \<times> real"

text \<open>
  The inner loop, with the polygons it has tested:
  \<^verbatim>\<open>
  assigned = None
  for ward_id, poly in wards:
      if poly.covers(pt):
          assigned = ward_id
          break
  \<close>
\<close>

fun first_cover ::
  "('poly \<Rightarrow> point \<Rightarrow> bool) \<Rightarrow> point \<Rightarrow> (int \<times> 'poly) list
    \<Rightarrow> int option \<times> (int \<times> 'poly) list" where
  "first_cover covers pt [] = (None, [])"
| "first_cover covers pt ((wid, poly) # wards) =
     (if covers poly pt then (Some wid, [(wid, poly)])
      else (fst (first_cover covers pt wards),
            (wid, poly) # snd (first_cover covers pt wards)))"

text \<open>
  The body of the loop over the rows: a row with a missing coordinate is skipped and
  keeps the missing value that the column \<^verbatim>\<open>Ward\<close> was filled with; any other row
  gets the result of the inner loop, which is \<^verbatim>\<open>None\<close> when no polygon covers it.
\<close>

definition ward_cell ::
  "('poly \<Rightarrow> point \<Rightarrow> bool) \<Rightarrow> (int \<times> 'poly) list \<Rightarrow> listing
    \<Rightarrow> int option \<times> (int \<times> 'poly) list" where
  "ward_cell covers wards r =
     (case latitude r of
        None \<Rightarrow> (None, [])
      | Some lat \<Rightarrow>
          (case longitude r of
             None \<Rightarrow> (None, [])
           | Some lon \<Rightarrow> first_cover covers (lon, lat) wards))"

text \<open>
  \<^verbatim>\<open>assign_ward_to_points\<close>: the list \<^verbatim>\<open>wards\<close> of pairs, the column \<^verbatim>\<open>Ward\<close> filled
  row by row, then \<^verbatim>\<open>dropna(subset=["Ward"])\<close> and the cast of the column to integers.
  Rows are taken by position (the index that \<^verbatim>\<open>read_csv\<close> gives has no duplicates).
\<close>

definition assign_ward_to_points ::
  "('poly \<Rightarrow> point \<Rightarrow> bool) \<Rightarrow> listing list \<Rightarrow> 'poly ward_polygon list
    \<Rightarrow> assigned_row list" where
  "assign_ward_to_points covers listings_df ward_polygons =
     (let wards = map (\<lambda>w. (ward_id w, geometry w)) ward_polygons;
          out = map (\<lambda>r. (r, fst (ward_cell covers wards r))) listings_df
      in concat (map (\<lambda>(r, a). case a of None \<Rightarrow> [] | Some w \<Rightarrow> [\<lparr>Ward = w, row = r\<rparr>]) out))"

section \<open>Field inference\<close>

text \<open>
  The \<^verbatim>\<open>properties\<close> of a feature: a dictionary, as the list of its keys (each of
  them once, in their order) with their values. The values
  are of any type \<open>'v\<close>; \<open>to_int v\<close> stands for Python's \<^verbatim>\<open>int(str(v).strip())\<close>,
  with \<open>None\<close> when it raises. The two failures are both a \<^verbatim>\<open>ValueError\<close> in the
  source.
\<close>

type_synonym 'v properties = "(string \<times> 'v) list"

datatype error = No_Features | No_Ward_Field

text \<open>
  \<^verbatim>\<open>
  vals = [f.get("properties", {}).get(k, None) for f in features]
  converted = []
  for v in vals:
      try: converted.append(int(str(v).strip()))
      except Exception: continue
  \<close>
  A feature without the key gives Python's \<^verbatim>\<open>None\<close>, which does not parse.
\<close>

definition converted :: "('v \<Rightarrow> int option) \<Rightarrow> 'v properties list \<Rightarrow> string \<Rightarrow> int list" where
  "converted to_int features k =
     concat (map (\<lambda>f. case map_of f k of
                         None \<Rightarrow> []
                       | Some v \<Rightarrow> (case to_int v of None \<Rightarrow> [] | Some iv \<Rightarrow> [iv])) features)"

definition ok :: "('v \<Rightarrow> int option) \<Rightarrow> 'v properties list \<Rightarrow> string \<Rightarrow> nat" where
  "ok to_int features k = length (converted to_int features k)"

definition in_range :: "('v \<Rightarrow> int option) \<Rightarrow> 'v properties list \<Rightarrow> string \<Rightarrow> nat" where
  "in_range to_int features k =
     length (filter (\<lambda>iv. 1 \<le> iv \<and> iv \<le> 30) (converted to_int features k))"

definition score :: "('v \<Rightarrow> int option) \<Rightarrow> 'v properties list \<Rightarrow> string \<Rightarrow> int" where
  "score to_int features k = int (ok to_int features k) + int (in_range to_int features k)"

text \<open>
  One turn of the loop over the candidate keys, on the pair of \<^verbatim>\<open>best_key\<close> and
  \<^verbatim>\<open>best_score\<close>: a key with no value that parses is passed over, another one replaces
  the best only with a strictly greater score.
\<close>

definition step ::
  "('v \<Rightarrow> int option) \<Rightarrow> 'v properties list \<Rightarrow> string option \<times> int \<Rightarrow> string
    \<Rightarrow> string option \<times> int" where
  "step to_int features best k =
     (if ok to_int features k = 0 then best
      else if score to_int features k > snd best then (Some k, score to_int features k)
      else best)"

definition candidate_keys :: "'v properties list \<Rightarrow> string list" where
  "candidate_keys features = (case features of [] \<Rightarrow> [] | f # _ \<Rightarrow> map fst f)"

definition detect_ward_id_field ::
  "('v \<Rightarrow> int option) \<Rightarrow> 'v properties list \<Rightarrow> error + string" where
  "detect_ward_id_field to_int features =
     (if features = [] then Inl No_Features
      else (case fst (foldl (step to_int features) (None, - 1) (candidate_keys features)) of
              None \<Rightarrow> Inl No_Ward_Field
            | Some best_key \<Rightarrow> Inr best_key))"

text \<open>
  What holds of \<^verbatim>\<open>best_key\<close> and \<^verbatim>\<open>best_score\<close> after the loop has gone through the
  keys \<open>ks\<close>: either no key had a value that parses, or the best key has one, its
  score is the best score, the keys before it have a smaller score and the keys after
  it have no greater one.
\<close>

definition best_inv ::
  "('v \<Rightarrow> int option) \<Rightarrow> 'v properties list \<Rightarrow> string list \<Rightarrow> string option \<times> int \<Rightarrow> bool" where
  "best_inv ti fs ks best =
     (case fst best of
        None \<Rightarrow> snd best = - 1 \<and> (\<forall>k \<in> set ks. ok ti fs k = 0)
      | Some k \<Rightarrow> snd best = score ti fs k \<and> 0 < ok ti fs k \<and>
          (\<exists>pre post. ks = pre @ k # post
             \<and> (\<forall>k' \<in> set pre. score ti fs k' < score ti fs k)
             \<and> (\<forall>k' \<in> set post. score ti fs k' \<le> score ti fs k)))"

section \<open>Ward aggregation\<close>

text \<open>
  What pandas computes is written out from its documented behaviour. Sums and quotients
  of finite floats are exact here (their rounding is not modelled). Group keys come out
  sorted, as \<^verbatim>\<open>groupby\<close> and \<^verbatim>\<open>pivot_table\<close> sort them; strings are ordered
  lexicographically by their bytes.
\<close>

definition non_missing :: "'a option list \<Rightarrow> 'a list" where
  "non_missing xs = concat (map (\<lambda>x. case x of None \<Rightarrow> [] | Some v \<Rightarrow> [v]) xs)"

text \<open>
  The aggregations \<^verbatim>\<open>"median"\<close> and \<^verbatim>\<open>"mean"\<close> of a group, on its non-missing values:
  missing values are skipped, and a group without any value gives a missing result.
\<close>

definition median :: "real list \<Rightarrow> real option" where
  "median xs =
     (let s = sort xs; n = length s
      in if n = 0 then None
         else if odd n then Some (s ! (n div 2))
         else Some ((s ! (n div 2 - 1) + s ! (n div 2)) / 2))"

definition mean :: "real list \<Rightarrow> real option" where
  "mean xs = (if xs = [] then None else Some (sum_list xs / real (length xs)))"

fun cell :: "real option \<Rightarrow> pyfloat" where
  "cell None = NaN"
| "cell (Some v) = Fin v"

definition ward_group :: "assigned_row list \<Rightarrow> int \<Rightarrow> assigned_row list" where
  "ward_group rs w = filter (\<lambda>r. Ward r = w) rs"

text \<open>
  \<^verbatim>\<open>re_with_ward.groupby(["Ward", "Listing_Style"], as_index=False).size()\<close>: a group
  key with a missing part is dropped, so only the listings that have a style are counted;
  there is one row for each pair of a ward and a style that occurs.
\<close>

definition styled :: "assigned_row list \<Rightarrow> (int \<times> string) list" where
  "styled rs =
     concat (map (\<lambda>r. case Listing_Style (row r) of None \<Rightarrow> [] | Some c \<Rightarrow> [(Ward r, c)]) rs)"

definition style_counts :: "assigned_row list \<Rightarrow> (int \<times> string \<times> nat) list" where
  "style_counts rs =
     map (\<lambda>(w, c). (w, c, count_list (styled rs) (w, c))) (sort (remdups (styled rs)))"

text \<open>
  \<^verbatim>\<open>totals = style_counts.groupby("Ward")["Style_Count"].sum()\<close>, merged back on the
  ward, and \<^verbatim>\<open>Style_Share = Style_Count / Ward_Total\<close>.
\<close>

definition Ward_Total :: "(int \<times> string \<times> nat) list \<Rightarrow> int \<Rightarrow> nat" where
  "Ward_Total sc w = sum_list (map (\<lambda>(w', c, n). n) (filter (\<lambda>(w', c, n). w' = w) sc))"

definition style_shares :: "assigned_row list \<Rightarrow> (int \<times> string \<times> real) list" where
  "style_shares rs =
     (let sc = style_counts rs
      in map (\<lambda>(w, c, n). (w, c, real n / real (Ward_Total sc w))) sc)"

text \<open>
  \<^verbatim>\<open>pivot_table(index="Ward", columns="Listing_Style", values="Style_Share",
  aggfunc="sum", fill_value=0)\<close>: the wards and the styles that occur in the table of
  shares, and for each of their pairs the sum of its shares, or the fill value when the
  pair has no row. The columns are kept by their style; their renaming to
  \<^verbatim>\<open>StyleShare_<style>\<close> is left out.
\<close>

definition pivot_index :: "assigned_row list \<Rightarrow> int list" where
  "pivot_index rs = sort (remdups (map fst (style_shares rs)))"

definition pivot_columns :: "assigned_row list \<Rightarrow> string list" where
  "pivot_columns rs = sort (remdups (map (\<lambda>(w, c, s). c) (style_shares rs)))"

definition pivot_cell :: "assigned_row list \<Rightarrow> int \<Rightarrow> string \<Rightarrow> real" where
  "pivot_cell rs w c =
     (let vs = map (\<lambda>(w', c', s). s) (filter (\<lambda>(w', c', s). w' = w \<and> c' = c) (style_shares rs))
      in if vs = [] then 0 else sum_list vs)"

text \<open>
  \<^verbatim>\<open>ward_agg.merge(style_pivot, on="Ward", how="left")\<close>: a ward that is not in the
  pivot gets a missing value in every column of the pivot.
\<close>

definition style_cells :: "assigned_row list \<Rightarrow> int \<Rightarrow> (string \<times> pyfloat) list" where
  "style_cells rs w =
     (if w \<in> set (pivot_index rs) then map (\<lambda>c. (c, Fin (pivot_cell rs w c))) (pivot_columns rs)
      else map (\<lambda>c. (c, NaN)) (pivot_columns rs))"

text \<open>
  \<^verbatim>\<open>
  ward_agg = re_with_ward.groupby("Ward", as_index=False).agg(
      Listings=("Price", "count"), Median_List_Price=("Price", "median"),
      Mean_List_Price=("Price", "mean"), Median_WalkScore=("walkScore", "median"))
  \<close>
  followed by the merge with the pivot of the style shares (the listings have the column
  \<^verbatim>\<open>Listing_Style\<close>).
\<close>

definition agg_of :: "assigned_row list \<Rightarrow> int \<Rightarrow> agg_row" where
  "agg_of rs w =
     (let g = ward_group rs w
      in \<lparr>Ward = w,
          Listings = length g,
          Median_List_Price = cell (median (map (\<lambda>r. Price (row r)) g)),
          Mean_List_Price = cell (mean (map (\<lambda>r. Price (row r)) g)),
          Median_WalkScore = cell (median (non_missing (map (\<lambda>r. walkScore (row r)) g))),
          StyleShare = style_cells rs w\<rparr>)"

definition ward_agg :: "assigned_row list \<Rightarrow> agg_row list" where
  "ward_agg rs = map (agg_of rs) (sort (remdups (map Ward rs)))"

section \<open>The pipeline\<close>

text \<open>
  The core of \<^verbatim>\<open>main\<close>, from the listings, the ward polygons and the income table to
  the two tables it writes. \<^verbatim>\<open>re_df.dropna(subset=["latitude", "longitude", "Price"])\<close>
  comes first (the price of a row of the model is never missing).
\<close>

definition dropna_listings :: "listing list \<Rightarrow> listing list" where
  "dropna_listings re_df = filter (\<lambda>r. latitude r \<noteq> None \<and> longitude r \<noteq> None) re_df"

definition main_tables ::
  "('poly \<Rightarrow> point \<Rightarrow> bool) \<Rightarrow> listing list \<Rightarrow> 'poly ward_polygon list \<Rightarrow> income_row list
    \<Rightarrow> agg_row list \<times> dashboard_row list" where
  "main_tables covers re_df ward_polygons income =
     (let re_with_ward = assign_ward_to_points covers (dropna_listings re_df) ward_polygons;
          wa = ward_agg re_with_ward
      in (wa, dashboard income wa))"

section \<open>Classes of ratios\<close>

text \<open>
  The finite non-negative floats, the negative ones, and the four bands that a
  threshold decides.
\<close>

fun finite_nonneg :: "pyfloat \<Rightarrow> bool" where
  "finite_nonneg (Fin a) = (0 \<le> a)"
| "finite_nonneg NegZero = True"
| "finite_nonneg _ = False"

fun negative :: "pyfloat \<Rightarrow> bool" where
  "negative (Fin a) = (a < 0)"
| "negative NInf = True"
| "negative _ = False"

definition threshold_bands :: "string list" where
  "threshold_bands = [More_Affordable, Stretched, High_Risk, Severe_Risk]"

section \<open>Example inputs\<close>

text \<open>The metadata of the three features \<^verbatim>\<open>{"OBJECTID": 101.., "WARD_NUM": 1..}\<close>.\<close>

definition example_fields :: "int properties list" where
  "example_fields =
     [[(''OBJECTID'', 101), (''WARD_NUM'', 1)],
      [(''OBJECTID'', 102), (''WARD_NUM'', 2)],
      [(''OBJECTID'', 103), (''WARD_NUM'', 3)]]"

text \<open>An aggregate row of ward 1 with the median price 800000.\<close>

definition example_agg :: agg_row where
  "example_agg =
     \<lparr>Ward = 1, Listings = 1, Median_List_Price = Fin 800000, Mean_List_Price = Fin 800000,
      Median_WalkScore = NaN, StyleShare = []\<rparr>"

text \<open>
  Two square wards that share the edge \<open>x = 2\<close>; a polygon is here a box
  (xmin, ymin, xmax, ymax) and covers its boundary.
\<close>

definition covers_box :: "real \<times> real \<times> real \<times> real \<Rightarrow> point \<Rightarrow> bool" where
  "covers_box b pt =
     (case b of (xmin, ymin, xmax, ymax) \<Rightarrow>
        xmin \<le> fst pt \<and> fst pt \<le> xmax \<and> ymin \<le> snd pt \<and> snd pt \<le> ymax)"

definition example_wards :: "(real \<times> real \<times> real \<times> real) ward_polygon list" where
  "example_wards =
     [\<lparr>ward_id = 1, geometry = (0, 0, 2, 2)\<rparr>, \<lparr>ward_id = 2, geometry = (2, 0, 4, 2)\<rparr>]"

definition example_listing :: "real option \<Rightarrow> real option \<Rightarrow> real \<Rightarrow> listing" where
  "example_listing lat lon p =
     \<lparr>latitude = lat, longitude = lon, Price = p, walkScore = None, Listing_Style = None\<rparr>"

definition styled_listing ::
  "real option \<Rightarrow> real option \<Rightarrow> real \<Rightarrow> real option \<Rightarrow> string option \<Rightarrow> listing" where
  "styled_listing lat lon p w s =
     \<lparr>latitude = lat, longitude = lon, Price = p, walkScore = w, Listing_Style = s\<rparr>"

text \<open>
  Three listings in ward 1, without walk score and without style, two listings in
  ward 2, one of them with a walk score, and one listing outside both wards.
\<close>

definition example_listings :: "listing list" where
  "example_listings =
     [example_listing (Some 1) (Some 1) 500000,
      example_listing (Some 1) (Some 0) 520000,
      example_listing (Some 2) (Some 1) 600000,
      styled_listing (Some 1) (Some 3) 700000 (Some 60) (Some ''Condo''),
      styled_listing (Some 1) (Some 3) 720000 None (Some ''House''),
      styled_listing (Some 5) (Some 5) 900000 None (Some ''Condo'')]"

section \<open>Properties of the affordability band\<close>

lemma bands_distinct: "distinct (Unknown # threshold_bands)"
  by (simp add: threshold_bands_def Unknown_def More_Affordable_def Stretched_def
      High_Risk_def Severe_Risk_def en_dash_def)

text \<open>
  C1. On every finite non-negative ratio the classifier returns one of the four
  threshold bands, which are pairwise different labels, and the band is decided by the
  half-open ranges: below 4 is "More Affordable (<4x)", from 4 (included) to 6 is
  "Stretched", from 6 (included) to 8 is "High Risk", 8 and above is "Severe Risk (8x+)";
  the ratio 4.0 itself is "Stretched".
\<close>

theorem affordability_band_ranges:
  assumes "finite_nonneg x"
  shows "affordability_band x \<in> set threshold_bands
    \<and> distinct threshold_bands
    \<and> (affordability_band x = More_Affordable \<longleftrightarrow> fval x < 4)
    \<and> (affordability_band x = Stretched \<longleftrightarrow> 4 \<le> fval x \<and> fval x < 6)
    \<and> (affordability_band x = High_Risk \<longleftrightarrow> 6 \<le> fval x \<and> fval x < 8)
    \<and> (affordability_band x = Severe_Risk \<longleftrightarrow> 8 \<le> fval x)
    \<and> affordability_band (Fin 4) = Stretched"
proof -
  have d: "distinct (Unknown # threshold_bands)" by (rule bands_distinct)
  from assms show ?thesis
    using d by (cases x) (auto simp: affordability_band_def threshold_bands_def)
qed

theorem affordability_band_ranges_witness:
  "finite_nonneg (Fin 5) \<and> affordability_band (Fin 5) = Stretched
    \<and> affordability_band (Fin 4) = Stretched \<and> Stretched \<noteq> More_Affordable"
proof -
  have h: "finite_nonneg (Fin 5)" by simp
  note r = affordability_band_ranges [OF h]
  from r have a: "(affordability_band (Fin 5) = Stretched) = (4 \<le> fval (Fin 5) \<and> fval (Fin 5) < 6)"
    by blast
  from r have b: "affordability_band (Fin 4) = Stretched" by blast
  from r have c: "distinct threshold_bands" by blast
  from a have a': "affordability_band (Fin 5) = Stretched" by simp
  from c have c': "Stretched \<noteq> More_Affordable" by (auto simp: threshold_bands_def)
  from h a' b c' show ?thesis by blast
qed

text \<open>
  C10. The classifier is total on every float: a negative ratio (minus infinity
  included) is "More Affordable (<4x)", plus infinity is "Severe Risk (8x+)", NaN is
  "Unknown", and whatever the input the result is one of the five pairwise different
  labels.
\<close>

theorem affordability_band_total:
  "(negative x \<longrightarrow> affordability_band x = More_Affordable)
    \<and> affordability_band PInf = Severe_Risk
    \<and> affordability_band NaN = Unknown
    \<and> affordability_band x \<in> set (Unknown # threshold_bands)
    \<and> distinct (Unknown # threshold_bands)"
  using bands_distinct
  by (cases x) (auto simp: affordability_band_def threshold_bands_def)

theorem affordability_band_total_witness:
  "negative (Fin (- 3)) \<and> affordability_band (Fin (- 3)) = More_Affordable
    \<and> affordability_band NInf = More_Affordable"
  using affordability_band_total [of "Fin (- 3)"] affordability_band_total [of NInf]
  by simp

section \<open>Properties of the affordability ratio\<close>

text \<open>
  C2. The claim fails for an income of zero: with the median price 800000 the ratio is
  plus infinity and the band is "Severe Risk (8x+)".
\<close>

theorem zero_income_counterexample:
  "map Affordability_Band
      (dashboard [\<lparr>Ward = 1, Average_Household_Income = Fin 0\<rparr>] [example_agg]) = [Severe_Risk]
    \<and> Severe_Risk \<noteq> Unknown"
  by (simp add: dashboard_def merge_inner_def dropna_income_def derive_row_def fdiv_def
      affordability_band_def example_agg_def Severe_Risk_def Unknown_def)

text \<open>
  C2, as amended. In every row of the dashboard the income is not missing (the rows
  without an income are dropped before the join), the ratio is the IEEE quotient, which
  never raises, and the band is the band of the ratio. A missing median price gives
  "Unknown". A zero income is not caught: over it a zero median price gives "Unknown"
  (0/0 is NaN), and any other median price gives an infinite ratio, hence
  "Severe Risk (8x+)" when the signs agree and "More Affordable (<4x)" when they differ.
\<close>

theorem dashboard_band_of_missing_or_zero:
  assumes "d \<in> set (dashboard income wa)"
  shows "\<not> isna (Average_Household_Income (inc d))
    \<and> Affordability_Ratio d = fdiv (Median_List_Price (agg d)) (Average_Household_Income (inc d))
    \<and> Affordability_Band d = affordability_band (Affordability_Ratio d)
    \<and> (isna (Median_List_Price (agg d)) \<longrightarrow> Affordability_Band d = Unknown)
    \<and> (is_zero (Average_Household_Income (inc d)) \<and> is_zero (Median_List_Price (agg d))
         \<longrightarrow> Affordability_Band d = Unknown)
    \<and> (is_zero (Average_Household_Income (inc d)) \<and> \<not> is_zero (Median_List_Price (agg d))
          \<and> \<not> isna (Median_List_Price (agg d)) \<longrightarrow>
          Affordability_Band d =
            (if sign_bit (Median_List_Price (agg d)) = sign_bit (Average_Household_Income (inc d))
             then Severe_Risk else More_Affordable))"
proof -
  from assms obtain l r where d: "d = derive_row (l, r)" and l: "l \<in> set (dropna_income income)"
    by (auto simp: dashboard_def merge_inner_def)
  from l have n: "\<not> isna (Average_Household_Income l)" by (simp add: dropna_income_def)
  show ?thesis using n unfolding d
    by (simp add: derive_row_def Let_def fdiv_def affordability_band_def)
qed

theorem dashboard_band_of_missing_or_zero_witness:
  "derive_row (\<lparr>Ward = 1, Average_Household_Income = Fin 0\<rparr>, example_agg)
      \<in> set (dashboard [\<lparr>Ward = 1, Average_Household_Income = Fin 0\<rparr>] [example_agg])
    \<and> Affordability_Band (derive_row (\<lparr>Ward = 1, Average_Household_Income = Fin 0\<rparr>, example_agg))
        = Severe_Risk"
proof -
  let ?d = "derive_row (\<lparr>Ward = 1, Average_Household_Income = Fin 0\<rparr>, example_agg)"
  have h: "?d \<in> set (dashboard [\<lparr>Ward = 1, Average_Household_Income = Fin 0\<rparr>] [example_agg])"
    by (simp add: dashboard_def merge_inner_def dropna_income_def example_agg_def)
  have z: "is_zero (Average_Household_Income (inc ?d))" "\<not> is_zero (Median_List_Price (agg ?d))"
    "\<not> isna (Median_List_Price (agg ?d))"
    "sign_bit (Median_List_Price (agg ?d)) = sign_bit (Average_Household_Income (inc ?d))"
    by (simp_all add: derive_row_def Let_def example_agg_def)
  from dashboard_band_of_missing_or_zero [OF h]
  have "is_zero (Average_Household_Income (inc ?d)) \<and> \<not> is_zero (Median_List_Price (agg ?d))
          \<and> \<not> isna (Median_List_Price (agg ?d)) \<longrightarrow>
          Affordability_Band ?d =
            (if sign_bit (Median_List_Price (agg ?d)) = sign_bit (Average_Household_Income (inc ?d))
             then Severe_Risk else More_Affordable)"
    by blast
  with z have "Affordability_Band ?d = Severe_Risk" by simp
  with h show ?thesis by blast
qed

section \<open>Properties of the join\<close>

lemma filter_key_length:
  fixes R :: "agg_row list"
  shows "distinct (map Ward R) \<Longrightarrow>
    length (filter (\<lambda>r. Ward r = k) R) = (if k \<in> Ward ` set R then 1 else 0)"
  by (induction R) (auto simp: image_iff)

lemma merge_inner_length:
  "distinct (map Ward R) \<Longrightarrow>
   length (merge_inner L R) = length (filter (\<lambda>l. Ward l \<in> Ward ` set R) L)"
  by (induction L) (simp_all add: merge_inner_def filter_key_length)

lemma matched_le_right:
  fixes L :: "income_row list" and R :: "agg_row list"
  assumes "distinct (map Ward L)"
  shows "length (filter (\<lambda>l. Ward l \<in> Ward ` set R) L) \<le> length R"
proof -
  let ?M = "filter (\<lambda>l. Ward l \<in> Ward ` set R) L"
  have d: "distinct (map Ward ?M)" using assms by (rule distinct_map_filter)
  have "length ?M = length (map Ward ?M)" by simp
  also have "\<dots> = card (set (map Ward ?M))" using d by (simp only: distinct_card)
  also have "\<dots> \<le> card (Ward ` set R)" by (rule card_mono) auto
  also have "\<dots> \<le> card (set R)" by (rule card_image_le) simp
  also have "\<dots> \<le> length R" by (rule card_length)
  finally show ?thesis .
qed

lemma merge_inner_set:
  "set (merge_inner L R) = {(l, r). l \<in> set L \<and> r \<in> set R \<and> Ward r = Ward l}"
  by (auto simp: merge_inner_def)

lemma ward_agg_distinct: "distinct (map Ward (ward_agg rs))"
proof -
  have "map Ward (ward_agg rs) = sort (remdups (map Ward rs))"
    by (simp add: ward_agg_def agg_of_def Let_def comp_def)
  then show ?thesis by simp
qed

text \<open>
  C8. The bound by the minimum fails when the income table has two rows for one ward:
  both are joined with the aggregate row of the ward, so two income rows and one
  aggregate row give two dashboard rows.
\<close>

theorem duplicate_income_ward_counterexample:
  "length (dashboard [\<lparr>Ward = 1, Average_Household_Income = Fin 100000\<rparr>,
                      \<lparr>Ward = 1, Average_Household_Income = Fin 120000\<rparr>] [example_agg]) = 2
    \<and> min (length (dropna_income [\<lparr>Ward = 1, Average_Household_Income = Fin 100000\<rparr>,
                                  \<lparr>Ward = 1, Average_Household_Income = Fin 120000\<rparr>]))
           (length [example_agg]) = 1"
  by (simp add: dashboard_def merge_inner_def dropna_income_def example_agg_def)

text \<open>
  C8, as amended. The income table of the join is the one left by the removal of the
  rows without an income. The aggregate table has one row for each ward (lemma
  \<open>ward_agg_distinct\<close>). With such an aggregate table the dashboard has at most as many
  rows as the income table; when the income table too has one row for each ward, the
  dashboard has at most the minimum of the two row counts. Every row of the dashboard
  joins an income row and an aggregate row of the same ward, so a ward that is in only
  one of the two tables is in no row.
\<close>

theorem dashboard_inner_join:
  assumes "distinct (map Ward wa)"
  shows "length (dashboard income wa) \<le> length (dropna_income income)
    \<and> (distinct (map Ward (dropna_income income)) \<longrightarrow>
          length (dashboard income wa) \<le> min (length (dropna_income income)) (length wa))
    \<and> (\<forall>d \<in> set (dashboard income wa).
          inc d \<in> set (dropna_income income) \<and> agg d \<in> set wa \<and> Ward (inc d) = Ward (agg d))"
proof -
  let ?L = "dropna_income income"
  have len: "length (dashboard income wa)
      = length (filter (\<lambda>l. Ward l \<in> Ward ` set wa) ?L)"
    using assms by (simp add: dashboard_def merge_inner_length)
  have "length (filter (\<lambda>l. Ward l \<in> Ward ` set wa) ?L) \<le> length ?L"
    by (rule length_filter_le)
  then have a: "length (dashboard income wa) \<le> length ?L" using len by simp
  have b: "length (dashboard income wa) \<le> length wa" if "distinct (map Ward ?L)"
    using matched_le_right [OF that] len by simp
  have c: "inc d \<in> set ?L \<and> agg d \<in> set wa \<and> Ward (inc d) = Ward (agg d)"
    if "d \<in> set (dashboard income wa)" for d
  proof -
    from that obtain l r where "d = derive_row (l, r)" "(l, r) \<in> set (merge_inner ?L wa)"
      by (auto simp: dashboard_def)
    then show ?thesis
      by (auto simp: merge_inner_set derive_row_def Let_def)
  qed
  from a b c show ?thesis by simp
qed

theorem dashboard_inner_join_witness:
  "distinct (map Ward [example_agg])
    \<and> length (dashboard [\<lparr>Ward = 1, Average_Household_Income = Fin 150000\<rparr>,
                        \<lparr>Ward = 3, Average_Household_Income = Fin 90000\<rparr>] [example_agg]) \<le> 1"
proof -
  have h: "distinct (map Ward [example_agg])" by simp
  have i: "distinct (map Ward (dropna_income [\<lparr>Ward = 1, Average_Household_Income = Fin 150000\<rparr>,
                        \<lparr>Ward = 3, Average_Household_Income = Fin 90000\<rparr>]))"
    by (simp add: dropna_income_def)
  from dashboard_inner_join [OF h] i show ?thesis using h by fastforce
qed

section \<open>Properties of the spatial assignment\<close>

lemma first_cover_Some:
  "fst (first_cover covers pt wards) = Some w \<Longrightarrow>
   \<exists>i < length wards. fst (wards ! i) = w \<and> covers (snd (wards ! i)) pt
     \<and> (\<forall>j < i. \<not> covers (snd (wards ! j)) pt)
     \<and> snd (first_cover covers pt wards) = take (Suc i) wards"
proof (induction wards)
  case Nil
  then show ?case by simp
next
  case (Cons a wards)
  obtain wid poly where a: "a = (wid, poly)" by (cases a)
  show ?case
  proof (cases "covers poly pt")
    case True
    with Cons.prems a have "w = wid" by simp
    with True a show ?thesis by (intro exI [of _ 0]) simp
  next
    case False
    with Cons.prems a have "fst (first_cover covers pt wards) = Some w" by simp
    from Cons.IH [OF this] obtain i where i: "i < length wards" "fst (wards ! i) = w"
      "covers (snd (wards ! i)) pt" "\<forall>j < i. \<not> covers (snd (wards ! j)) pt"
      "snd (first_cover covers pt wards) = take (Suc i) wards" by blast
    have "\<forall>j < Suc i. \<not> covers (snd ((a # wards) ! j)) pt"
    proof (intro allI impI)
      fix j assume "j < Suc i"
      then show "\<not> covers (snd ((a # wards) ! j)) pt"
        using False a i(4) by (cases j) auto
    qed
    with i False a show ?thesis by (intro exI [of _ "Suc i"]) simp
  qed
qed

lemma first_cover_None:
  "fst (first_cover covers pt wards) = None \<longleftrightarrow> (\<forall>w \<in> set wards. \<not> covers (snd w) pt)"
  by (induction wards) (auto split: if_splits)

lemma assign_set:
  "set (assign_ward_to_points covers ls wps) =
   {\<lparr>Ward = w, row = r\<rparr> | w r. r \<in> set ls \<and>
      fst (ward_cell covers (map (\<lambda>w. (ward_id w, geometry w)) wps) r) = Some w}"
  by (auto simp: assign_ward_to_points_def Let_def split: option.splits)

lemma assign_filter:
  "assign_ward_to_points covers (filter P ls) wps =
   filter (\<lambda>a. P (row a)) (assign_ward_to_points covers ls wps)"
  by (induction ls) (auto simp: assign_ward_to_points_def Let_def split: option.splits)

text \<open>
  C3. Every row of the result comes from a listing with both coordinates, and its ward
  is the identifier of a polygon, at some position of the given list, that covers the
  point of the listing, while no polygon at an earlier position covers it; the polygons
  tested for the listing are those up to that position and none after it.
\<close>

theorem assigned_ward_is_first_cover:
  assumes "a \<in> set (assign_ward_to_points covers listings_df ward_polygons)"
  shows "\<exists>lat lon i. row a \<in> set listings_df
      \<and> latitude (row a) = Some lat \<and> longitude (row a) = Some lon
      \<and> i < length ward_polygons \<and> ward_id (ward_polygons ! i) = Ward a
      \<and> covers (geometry (ward_polygons ! i)) (lon, lat)
      \<and> (\<forall>j < i. \<not> covers (geometry (ward_polygons ! j)) (lon, lat))
      \<and> snd (ward_cell covers (map (\<lambda>w. (ward_id w, geometry w)) ward_polygons) (row a))
          = take (Suc i) (map (\<lambda>w. (ward_id w, geometry w)) ward_polygons)"
proof -
  let ?wards = "map (\<lambda>w. (ward_id w, geometry w)) ward_polygons"
  from assms obtain w r where a: "a = \<lparr>Ward = w, row = r\<rparr>" and r: "r \<in> set listings_df"
    and c: "fst (ward_cell covers ?wards r) = Some w"
    by (auto simp: assign_set)
  from c obtain lat lon where ll: "latitude r = Some lat" "longitude r = Some lon"
    and wc: "ward_cell covers ?wards r = first_cover covers (lon, lat) ?wards"
    by (auto simp: ward_cell_def split: option.splits)
  from c wc have "fst (first_cover covers (lon, lat) ?wards) = Some w" by simp
  from first_cover_Some [OF this] obtain i where i: "i < length ?wards"
    "fst (?wards ! i) = w" "covers (snd (?wards ! i)) (lon, lat)"
    "\<forall>j < i. \<not> covers (snd (?wards ! j)) (lon, lat)"
    "snd (first_cover covers (lon, lat) ?wards) = take (Suc i) ?wards" by blast
  have "\<forall>j < i. \<not> covers (geometry (ward_polygons ! j)) (lon, lat)"
    using i(1,4) by auto
  with i a r ll wc show ?thesis
    by (intro exI [of _ lat] exI [of _ lon] exI [of _ i]) simp
qed

theorem assigned_ward_is_first_cover_witness:
  "\<lparr>Ward = 1, row = example_listing (Some 1) (Some 2) 500000\<rparr>
      \<in> set (assign_ward_to_points covers_box
           [example_listing (Some 1) (Some 2) 500000, example_listing (Some 5) (Some 5) 600000]
           example_wards)
    \<and> covers_box (geometry (example_wards ! 0)) (2, 1)
    \<and> covers_box (geometry (example_wards ! 1)) (2, 1)
    \<and> snd (ward_cell covers_box (map (\<lambda>w. (ward_id w, geometry w)) example_wards)
          (example_listing (Some 1) (Some 2) 500000)) = [(1, (0, 0, 2, 2))]"
proof -
  let ?a = "\<lparr>Ward = 1, row = example_listing (Some 1) (Some 2) 500000\<rparr>"
  let ?ls = "[example_listing (Some 1) (Some 2) 500000, example_listing (Some 5) (Some 5) 600000]"
  have h: "?a \<in> set (assign_ward_to_points covers_box ?ls example_wards)"
    by (simp add: assign_ward_to_points_def ward_cell_def example_listing_def example_wards_def
        covers_box_def)
  from assigned_ward_is_first_cover [OF h] obtain lat lon i where
    "latitude (row ?a) = Some lat" "longitude (row ?a) = Some lon"
    "ward_id (example_wards ! i) = Ward ?a" "i < length example_wards"
    "snd (ward_cell covers_box (map (\<lambda>w. (ward_id w, geometry w)) example_wards) (row ?a))
          = take (Suc i) (map (\<lambda>w. (ward_id w, geometry w)) example_wards)" by blast
  moreover from this(3,4) have "i = 0" by (cases i) (auto simp: example_wards_def)
  ultimately have t: "snd (ward_cell covers_box (map (\<lambda>w. (ward_id w, geometry w)) example_wards)
          (example_listing (Some 1) (Some 2) 500000)) = [(1, (0, 0, 2, 2))]"
    by (simp add: example_wards_def)
  have c: "covers_box (geometry (example_wards ! 0)) (2, 1)"
    "covers_box (geometry (example_wards ! 1)) (2, 1)"
    by (simp_all add: example_wards_def covers_box_def)
  from h t c show ?thesis by blast
qed

lemma ward_cell_None:
  assumes "latitude l = None \<or> longitude l = None
    \<or> (\<forall>w \<in> set wps. \<not> covers (geometry w) (the (longitude l), the (latitude l)))"
  shows "fst (ward_cell covers (map (\<lambda>w. (ward_id w, geometry w)) wps) l) = None"
  using assms by (auto simp: ward_cell_def first_cover_None split: option.splits)

lemma dropna_listings_filter:
  "dropna_listings (filter P ls) = filter P (dropna_listings ls)"
  by (auto simp: dropna_listings_def intro: filter_cong)

lemma fst_main_tables:
  "fst (main_tables covers re_df ward_polygons income)
    = ward_agg (assign_ward_to_points covers (dropna_listings re_df) ward_polygons)"
  by (simp add: main_tables_def Let_def)

lemma example_ward_agg:
  "fst (main_tables covers_box example_listings example_wards income) =
    [\<lparr>Ward = 1, Listings = 3, Median_List_Price = Fin 520000, Mean_List_Price = Fin 540000,
      Median_WalkScore = NaN, StyleShare = [(''Condo'', NaN), (''House'', NaN)]\<rparr>,
     \<lparr>Ward = 2, Listings = 2, Median_List_Price = Fin 710000, Mean_List_Price = Fin 710000,
      Median_WalkScore = Fin 60, StyleShare = [(''Condo'', Fin (1/2)), (''House'', Fin (1/2))]\<rparr>]"
  by (simp add: main_tables_def dropna_listings_def assign_ward_to_points_def ward_cell_def
      example_listings_def example_listing_def styled_listing_def example_wards_def covers_box_def
      ward_agg_def agg_of_def ward_group_def median_def mean_def non_missing_def
      style_cells_def pivot_index_def pivot_columns_def pivot_cell_def style_shares_def
      style_counts_def styled_def Ward_Total_def Let_def)

lemma example_assigned:
  "assign_ward_to_points covers_box (dropna_listings example_listings) example_wards =
    [\<lparr>Ward = 1, row = example_listing (Some 1) (Some 1) 500000\<rparr>,
     \<lparr>Ward = 1, row = example_listing (Some 1) (Some 0) 520000\<rparr>,
     \<lparr>Ward = 1, row = example_listing (Some 2) (Some 1) 600000\<rparr>,
     \<lparr>Ward = 2, row = styled_listing (Some 1) (Some 3) 700000 (Some 60) (Some ''Condo'')\<rparr>,
     \<lparr>Ward = 2, row = styled_listing (Some 1) (Some 3) 720000 None (Some ''House'')\<rparr>]"
  by (simp add: dropna_listings_def assign_ward_to_points_def ward_cell_def
      example_listings_def example_listing_def styled_listing_def example_wards_def covers_box_def)

text \<open>
  C7. A listing with a missing coordinate, or with a point that no polygon covers, is in
  no row of the result of the assignment, which is a value and not an error; the result
  is the one that the listings without it give, and so are the aggregate table and the
  dashboard of the pipeline: the listing is in none of their rows.
\<close>

theorem unassignable_listing_excluded:
  assumes "latitude l = None \<or> longitude l = None
    \<or> (\<forall>w \<in> set ward_polygons. \<not> covers (geometry w) (the (longitude l), the (latitude l)))"
  shows "l \<notin> row ` set (assign_ward_to_points covers listings_df ward_polygons)
    \<and> assign_ward_to_points covers listings_df ward_polygons
        = assign_ward_to_points covers (filter (\<lambda>x. x \<noteq> l) listings_df) ward_polygons
    \<and> main_tables covers listings_df ward_polygons income
        = main_tables covers (filter (\<lambda>x. x \<noteq> l) listings_df) ward_polygons income"
proof -
  have n: "fst (ward_cell covers (map (\<lambda>w. (ward_id w, geometry w)) ward_polygons) l) = None"
    using assms by (rule ward_cell_None)
  have notin: "l \<notin> row ` set (assign_ward_to_points covers ls ward_polygons)" for ls
    using n by (auto simp: assign_set)
  have eq: "assign_ward_to_points covers ls ward_polygons
        = assign_ward_to_points covers (filter (\<lambda>x. x \<noteq> l) ls) ward_polygons" for ls
  proof -
    have "filter (\<lambda>a. row a \<noteq> l) (assign_ward_to_points covers ls ward_polygons)
        = assign_ward_to_points covers ls ward_polygons"
      using notin [of ls] by (auto simp: filter_id_conv)
    then show ?thesis by (simp add: assign_filter)
  qed
  have "main_tables covers listings_df ward_polygons income
        = main_tables covers (filter (\<lambda>x. x \<noteq> l) listings_df) ward_polygons income"
    unfolding main_tables_def dropna_listings_filter
    using eq [of "dropna_listings listings_df"] by simp
  with notin eq show ?thesis by blast
qed

theorem unassignable_listing_excluded_witness:
  "\<not> covers_box (0, 0, 2, 2) (5, 5) \<and> \<not> covers_box (2, 0, 4, 2) (5, 5)
    \<and> styled_listing (Some 5) (Some 5) 900000 None (Some ''Condo'')
        \<notin> row ` set (assign_ward_to_points covers_box example_listings example_wards)
    \<and> main_tables covers_box example_listings example_wards []
        = main_tables covers_box
            (filter (\<lambda>x. x \<noteq> styled_listing (Some 5) (Some 5) 900000 None (Some ''Condo''))
               example_listings) example_wards []
    \<and> map Listings (fst (main_tables covers_box example_listings example_wards [])) = [3, 2]"
proof -
  let ?l = "styled_listing (Some 5) (Some 5) 900000 None (Some ''Condo'')"
  have c: "\<not> covers_box (0, 0, 2, 2) (5, 5)" "\<not> covers_box (2, 0, 4, 2) (5, 5)"
    by (simp_all add: covers_box_def)
  then have h: "latitude ?l = None \<or> longitude ?l = None
    \<or> (\<forall>w \<in> set example_wards. \<not> covers_box (geometry w) (the (longitude ?l), the (latitude ?l)))"
    by (simp add: example_wards_def styled_listing_def)
  note t = unassignable_listing_excluded [where l = ?l and ward_polygons = example_wards
      and covers = covers_box and listings_df = example_listings and income = "[]", OF h]
  have n: "map Listings (fst (main_tables covers_box example_listings example_wards [])) = [3, 2]"
    by (simp add: example_ward_agg)
  from c t n show ?thesis by blast
qed

section \<open>Properties of the field inference\<close>

lemma in_range_le_ok: "in_range ti fs k \<le> ok ti fs k"
  by (simp add: in_range_def ok_def)

lemma score_zero: "ok ti fs k = 0 \<Longrightarrow> score ti fs k = 0"
  using in_range_le_ok [of ti fs k] by (simp add: score_def)

lemma score_pos: "0 < ok ti fs k \<Longrightarrow> 0 < score ti fs k"
  by (simp add: score_def)

lemma score_nonneg: "0 \<le> score ti fs k"
  by (simp add: score_def)

lemma best_inv_SomeI:
  assumes "fst best = Some k" "snd best = score ti fs k" "0 < ok ti fs k" "ks = pre @ k # post"
    "\<forall>k' \<in> set pre. score ti fs k' < score ti fs k"
    "\<forall>k' \<in> set post. score ti fs k' \<le> score ti fs k"
  shows "best_inv ti fs ks best"
  unfolding best_inv_def using assms by (simp del: append_eq_append_conv2) blast

lemma foldl_step_inv: "best_inv ti fs ks (foldl (step ti fs) (None, - 1) ks)"
proof (induction ks rule: rev_induct)
  case Nil
  show ?case by (simp add: best_inv_def)
next
  case (snoc x ks)
  define best where "best = foldl (step ti fs) (None, - 1) ks"
  have inv: "best_inv ti fs ks best" using snoc by (simp add: best_def)
  have fold: "foldl (step ti fs) (None, - 1) (ks @ [x]) = step ti fs best x"
    by (simp add: best_def)
  show ?case
  proof (cases "ok ti fs x = 0")
    case True
    then have st: "step ti fs best x = best" by (simp add: step_def)
    have sx: "score ti fs x = 0" using True by (rule score_zero)
    show ?thesis
    proof (cases "fst best")
      case None
      with inv True show ?thesis unfolding fold st by (simp add: best_inv_def)
    next
      case (Some k)
      with inv obtain pre post where p: "snd best = score ti fs k" "0 < ok ti fs k"
        "ks = pre @ k # post" "\<forall>k' \<in> set pre. score ti fs k' < score ti fs k"
        "\<forall>k' \<in> set post. score ti fs k' \<le> score ti fs k"
        by (auto simp: best_inv_def)
      have "ks @ [x] = pre @ k # (post @ [x])" using p(3) by simp
      moreover have "\<forall>k' \<in> set (post @ [x]). score ti fs k' \<le> score ti fs k"
        using p(5) sx score_nonneg [of ti fs k] by auto
      ultimately show ?thesis unfolding fold st using Some p(1,2,4)
        by (intro best_inv_SomeI [where pre = pre and post = "post @ [x]"]) auto
    qed
  next
    case False
    then have okx: "0 < ok ti fs x" by simp
    show ?thesis
    proof (cases "score ti fs x > snd best")
      case True
      then have st: "step ti fs best x = (Some x, score ti fs x)"
        using False by (simp add: step_def)
      have "\<forall>k' \<in> set ks. score ti fs k' < score ti fs x"
      proof (cases "fst best")
        case None
        with inv have "\<forall>k \<in> set ks. ok ti fs k = 0" by (simp add: best_inv_def)
        then show ?thesis using score_zero [of ti fs] score_pos [OF okx] by auto
      next
        case (Some k)
        with inv obtain pre post where p: "snd best = score ti fs k"
          "ks = pre @ k # post" "\<forall>k' \<in> set pre. score ti fs k' < score ti fs k"
          "\<forall>k' \<in> set post. score ti fs k' \<le> score ti fs k"
          by (auto simp: best_inv_def)
        then show ?thesis using True by auto
      qed
      then show ?thesis unfolding fold st using okx
        by (intro best_inv_SomeI [where pre = ks and post = "[]" and k = x]) auto
    next
      case nb: False
      then have st: "step ti fs best x = best" by (simp add: step_def)
      show ?thesis
      proof (cases "fst best")
        case None
        with inv have "snd best = - 1" by (simp add: best_inv_def)
        with nb score_nonneg [of ti fs x] show ?thesis by simp
      next
        case (Some k)
        with inv obtain pre post where p: "snd best = score ti fs k" "0 < ok ti fs k"
          "ks = pre @ k # post" "\<forall>k' \<in> set pre. score ti fs k' < score ti fs k"
          "\<forall>k' \<in> set post. score ti fs k' \<le> score ti fs k"
          by (auto simp: best_inv_def)
        have "ks @ [x] = pre @ k # (post @ [x])" using p(3) by simp
        moreover have "\<forall>k' \<in> set (post @ [x]). score ti fs k' \<le> score ti fs k"
          using p(5) nb p(1) by auto
        ultimately show ?thesis unfolding fold st using Some p(1,2,4)
          by (intro best_inv_SomeI [where pre = pre and post = "post @ [x]"]) auto
      qed
    qed
  qed
qed

text \<open>
  C4. For a collection that is not empty and has a field (a key of the first record)
  with a value that parses as an integer, the inference returns a field: one of the keys
  of the first record, with at least one value that parses; its score is the number of
  values that parse plus the number of parsed values in [1, 30]; every key before it in
  the order of the keys has a strictly smaller score and every key after it has no
  greater score, so it is the first of the fields with the highest score. For the fields
  OBJECTID = 101, 102, 103 and WARD_NUM = 1, 2, 3 the scores are 3 and 6 and the result
  is WARD_NUM.
\<close>

theorem detect_first_highest:
  assumes "fs \<noteq> []" and "\<exists>k' \<in> set (candidate_keys fs). 0 < ok ti fs k'"
  shows "(\<exists>k. detect_ward_id_field ti fs = Inr k \<and> 0 < ok ti fs k
      \<and> score ti fs k = int (ok ti fs k) + int (in_range ti fs k)
      \<and> ok ti fs k = length (converted ti fs k)
      \<and> in_range ti fs k = length (filter (\<lambda>iv. 1 \<le> iv \<and> iv \<le> 30) (converted ti fs k))
      \<and> (\<exists>pre post. candidate_keys fs = pre @ k # post
            \<and> (\<forall>k' \<in> set pre. score ti fs k' < score ti fs k)
            \<and> (\<forall>k' \<in> set post. score ti fs k' \<le> score ti fs k)))
    \<and> score Some example_fields ''OBJECTID'' = 3
    \<and> score Some example_fields ''WARD_NUM'' = 6
    \<and> detect_ward_id_field Some example_fields = Inr ''WARD_NUM''"
proof -
  note inv = foldl_step_inv [of ti fs "candidate_keys fs"]
  have "fst (foldl (step ti fs) (None, - 1) (candidate_keys fs)) \<noteq> None"
  proof
    assume "fst (foldl (step ti fs) (None, - 1) (candidate_keys fs)) = None"
    with inv have "\<forall>k \<in> set (candidate_keys fs). ok ti fs k = 0" by (simp add: best_inv_def)
    with assms(2) show False by auto
  qed
  then obtain k where b: "fst (foldl (step ti fs) (None, - 1) (candidate_keys fs)) = Some k"
    by blast
  with assms(1) have r: "detect_ward_id_field ti fs = Inr k"
    by (simp add: detect_ward_id_field_def)
  have gen: "0 < ok ti fs k \<and> (\<exists>pre post. candidate_keys fs = pre @ k # post
          \<and> (\<forall>k' \<in> set pre. score ti fs k' < score ti fs k)
          \<and> (\<forall>k' \<in> set post. score ti fs k' \<le> score ti fs k))"
    using inv b by (simp add: best_inv_def)
  have sc: "score ti fs k = int (ok ti fs k) + int (in_range ti fs k)"
    "ok ti fs k = length (converted ti fs k)"
    "in_range ti fs k = length (filter (\<lambda>iv. 1 \<le> iv \<and> iv \<le> 30) (converted ti fs k))"
    by (simp_all add: score_def ok_def in_range_def)
  have e1: "score Some example_fields ''OBJECTID'' = 3"
    by (simp add: example_fields_def ok_def score_def in_range_def converted_def)
  have e2: "score Some example_fields ''WARD_NUM'' = 6"
    by (simp add: example_fields_def ok_def score_def in_range_def converted_def)
  have e3: "detect_ward_id_field Some example_fields = Inr ''WARD_NUM''"
    by (simp add: detect_ward_id_field_def example_fields_def candidate_keys_def step_def
        ok_def score_def in_range_def converted_def)
  from r gen sc e1 e2 e3 show ?thesis by blast
qed

theorem detect_first_highest_witness:
  "example_fields \<noteq> []
    \<and> (\<exists>k' \<in> set (candidate_keys example_fields). 0 < ok Some example_fields k')
    \<and> (\<exists>k. detect_ward_id_field Some example_fields = Inr k \<and> 0 < ok Some example_fields k)
    \<and> detect_ward_id_field Some example_fields = Inr ''WARD_NUM''"
proof -
  have h1: "example_fields \<noteq> []" by (simp add: example_fields_def)
  have h2: "\<exists>k' \<in> set (candidate_keys example_fields). 0 < ok Some example_fields k'"
    by (simp add: example_fields_def candidate_keys_def ok_def converted_def)
  from detect_first_highest [OF h1 h2] h1 h2 show ?thesis by blast
qed

text \<open>
  C9. The inference fails exactly when there is no feature or no field (a key of the
  first record, which is where the fields are taken from) has a value that parses as
  an integer: without features the failure is the first error of the source, with
  features and no such field it is the second one. In every other case the result is a
  field name, one of those keys.
\<close>

theorem detect_fails_iff:
  "((\<exists>e. detect_ward_id_field ti fs = Inl e) \<longleftrightarrow>
      (fs = [] \<or> (\<forall>k \<in> set (candidate_keys fs). ok ti fs k = 0)))
    \<and> (detect_ward_id_field ti fs = Inl No_Features \<longleftrightarrow> fs = [])
    \<and> ((\<exists>k. detect_ward_id_field ti fs = Inr k \<and> k \<in> set (candidate_keys fs)) \<longleftrightarrow>
      (fs \<noteq> [] \<and> (\<exists>k \<in> set (candidate_keys fs). 0 < ok ti fs k)))"
proof (cases "fs = []")
  case True
  then show ?thesis by (simp add: detect_ward_id_field_def)
next
  case False
  note inv = foldl_step_inv [of ti fs "candidate_keys fs"]
  show ?thesis
  proof (cases "fst (foldl (step ti fs) (None, - 1) (candidate_keys fs))")
    case None
    with inv False show ?thesis by (simp add: detect_ward_id_field_def best_inv_def)
  next
    case (Some k)
    with inv have "0 < ok ti fs k" "k \<in> set (candidate_keys fs)" by (auto simp: best_inv_def)
    with Some False show ?thesis by (auto simp: detect_ward_id_field_def)
  qed
qed

theorem detect_fails_iff_witness:
  "detect_ward_id_field Some ([] :: int properties list) = Inl No_Features
    \<and> (\<exists>k. detect_ward_id_field Some example_fields = Inr k)
    \<and> (\<exists>e. detect_ward_id_field (\<lambda>v::int. None) example_fields = Inl e)"
proof -
  have a: "detect_ward_id_field Some ([] :: int properties list) = Inl No_Features"
    using detect_fails_iff [of Some "[] :: int properties list"] by blast
  have "example_fields \<noteq> [] \<and> (\<exists>k \<in> set (candidate_keys example_fields).
      0 < ok Some example_fields k)"
    by (simp add: example_fields_def candidate_keys_def ok_def converted_def)
  then have b: "\<exists>k. detect_ward_id_field Some example_fields = Inr k"
    using detect_fails_iff [of Some example_fields] by blast
  have "\<forall>k \<in> set (candidate_keys example_fields). ok (\<lambda>v::int. None) example_fields k = 0"
    by (simp add: example_fields_def candidate_keys_def ok_def converted_def)
  then have c: "\<exists>e. detect_ward_id_field (\<lambda>v::int. None) example_fields = Inl e"
    using detect_fails_iff [of "\<lambda>v::int. None" example_fields] by blast
  from a b c show ?thesis by blast
qed

section \<open>Properties of the ward aggregation\<close>

lemma filter_below_sorted:
  fixes s :: "real list"
  assumes "sorted s" "k < length s" "m \<le> s ! k"
  shows "length (filter (\<lambda>x. x < m) s) \<le> k"
proof -
  have s: "s = take k s @ drop k s" by simp
  have "\<forall>x \<in> set (drop k s). s ! k \<le> x"
  proof
    fix x assume "x \<in> set (drop k s)"
    then obtain i where "i < length (drop k s)" "drop k s ! i = x" by (auto simp: in_set_conv_nth)
    then have "x = s ! (k + i)" "k + i < length s" by auto
    then show "s ! k \<le> x" using assms(1) by (simp add: sorted_nth_mono)
  qed
  then have "filter (\<lambda>x. x < m) (drop k s) = []" using assms(3) by (auto simp: filter_empty_conv)
  then have "filter (\<lambda>x. x < m) s = filter (\<lambda>x. x < m) (take k s)"
    by (subst s) (simp only: filter_append append_Nil2)
  then have "length (filter (\<lambda>x. x < m) s) \<le> length (take k s)"
    by (simp only: length_filter_le)
  then show ?thesis using assms(2) by simp
qed

lemma filter_above_sorted:
  fixes s :: "real list"
  assumes "sorted s" "j < length s" "s ! j \<le> m"
  shows "length (filter (\<lambda>x. m < x) s) \<le> length s - Suc j"
proof -
  have s: "s = take (Suc j) s @ drop (Suc j) s" by simp
  have "\<forall>x \<in> set (take (Suc j) s). x \<le> s ! j"
  proof
    fix x assume "x \<in> set (take (Suc j) s)"
    then obtain i where "i < length (take (Suc j) s)" "take (Suc j) s ! i = x"
      by (auto simp: in_set_conv_nth)
    then have "x = s ! i" "i \<le> j" by auto
    then show "x \<le> s ! j" using assms(1,2) by (simp add: sorted_nth_mono)
  qed
  then have "filter (\<lambda>x. m < x) (take (Suc j) s) = []"
    using assms(3) by (auto simp: filter_empty_conv)
  then have "filter (\<lambda>x. m < x) s = filter (\<lambda>x. m < x) (drop (Suc j) s)"
    by (subst s) (simp only: filter_append append_Nil)
  then have "length (filter (\<lambda>x. m < x) s) \<le> length (drop (Suc j) s)"
    by (simp only: length_filter_le)
  then show ?thesis by simp
qed

lemma length_filter_insort:
  fixes ys :: "real list"
  shows "length (filter P (insort x ys)) = length (filter P (x # ys))"
  by (induction ys) auto

lemma length_filter_sort:
  fixes xs :: "real list"
  shows "length (filter P (sort xs)) = length (filter P xs)"
  by (induction xs) (simp_all add: length_filter_insort)

lemma median_halves:
  assumes "median xs = Some m"
  shows "2 * length (filter (\<lambda>x. x < m) xs) \<le> length xs
    \<and> 2 * length (filter (\<lambda>x. m < x) xs) \<le> length xs"
proof -
  define s where "s = sort xs"
  define n where "n = length xs"
  have srt: "sorted s" and ls: "length s = n" by (simp_all add: s_def n_def)
  from assms have n0: "0 < n" by (auto simp: median_def Let_def n_def split: if_splits)
  show ?thesis
  proof (cases "odd n")
    case True
    with assms n0 have m: "m = s ! (n div 2)"
      by (auto simp: median_def Let_def n_def s_def split: if_splits)
    have k: "n div 2 < length s" using n0 ls by simp
    from filter_below_sorted [OF srt k, of m] m
    have "length (filter (\<lambda>x. x < m) s) \<le> n div 2" by simp
    moreover from filter_above_sorted [OF srt k, of m] m
    have "length (filter (\<lambda>x. m < x) s) \<le> n - Suc (n div 2)" using ls by simp
    moreover have "2 * (n - Suc (n div 2)) \<le> n" using True by presburger
    ultimately show ?thesis
      unfolding s_def length_filter_sort n_def [symmetric] by simp
  next
    case False
    with assms n0 have m: "m = (s ! (n div 2 - 1) + s ! (n div 2)) / 2"
      by (auto simp: median_def Let_def n_def s_def split: if_splits)
    from False n0 have n2: "2 \<le> n" by presburger
    have k: "n div 2 < length s" and j: "n div 2 - 1 < length s" using n0 ls by simp_all
    have le: "s ! (n div 2 - 1) \<le> s ! (n div 2)"
      using srt k by (simp add: sorted_nth_mono)
    have "m \<le> s ! (n div 2)" "s ! (n div 2 - 1) \<le> m" using le m by simp_all
    from filter_below_sorted [OF srt k this(1)] filter_above_sorted [OF srt j this(2)]
    have "length (filter (\<lambda>x. x < m) s) \<le> n div 2"
      "length (filter (\<lambda>x. m < x) s) \<le> n - Suc (n div 2 - 1)" using ls by simp_all
    moreover have "2 * (n - Suc (n div 2 - 1)) \<le> n" using False n2 by presburger
    ultimately show ?thesis
      unfolding s_def length_filter_sort n_def [symmetric] by simp
  qed
qed

lemma sort_Nil_iff: "sort xs = [] \<longleftrightarrow> xs = []"
  by (metis length_0_conv length_sort)

lemma set_non_missing: "set (non_missing xs) = {v. Some v \<in> set xs}"
  by (auto simp: non_missing_def split: option.splits)

lemma median_Some:
  assumes "xs \<noteq> []"
  shows "\<exists>v. median xs = Some v"
proof -
  define s where "s = sort xs"
  have n0: "length s \<noteq> 0" using assms by (simp add: s_def)
  have m: "median xs = (if odd (length s) then Some (s ! (length s div 2))
      else Some ((s ! (length s div 2 - 1) + s ! (length s div 2)) / 2))"
    unfolding median_def Let_def s_def [symmetric] using n0 by (simp only: if_False)
  show ?thesis
  proof (cases "odd (length s)")
    case True
    with m have "median xs = Some (s ! (length s div 2))" by simp
    then show ?thesis by blast
  next
    case False
    with m have "median xs = Some ((s ! (length s div 2 - 1) + s ! (length s div 2)) / 2)"
      by simp
    then show ?thesis by blast
  qed
qed

lemma ward_agg_row:
  assumes "a \<in> set (ward_agg rs)"
  shows "a = agg_of rs (Ward a) \<and> (\<exists>r \<in> set rs. Ward r = Ward a)"
proof -
  from assms obtain w where "w \<in> set (map Ward rs)" "a = agg_of rs w"
    by (auto simp: ward_agg_def)
  moreover have "Ward (agg_of rs w) = w" by (simp add: agg_of_def Let_def)
  ultimately show ?thesis by auto
qed

text \<open>
  C6. In every row of the aggregate table the count is the number of listings of the
  ward, which is not zero; the median price is the middle value of the sorted prices of
  the ward when their number is odd and the mean of the two middle values when it is
  even, so that at most half of the prices are below it and at most half are above it;
  the mean price is their sum over their number; the median walk score is the median of
  the walk scores of the ward that are not missing, a value when there is one and the
  missing value (not zero) when all of them are missing. The prices 500000, 520000,
  600000 have the median 520000 and the prices 700000, 720000 have the median 710000.
\<close>

theorem ward_agg_statistics:
  assumes "a \<in> set (ward_agg rs)"
  shows "\<exists>n m. n = length (ward_group rs (Ward a)) \<and> 0 < n \<and> Listings a = n
      \<and> Median_List_Price a = Fin m
      \<and> m = (let s = sort (map (\<lambda>r. Price (row r)) (ward_group rs (Ward a)))
             in if odd n then s ! (n div 2) else (s ! (n div 2 - 1) + s ! (n div 2)) / 2)
      \<and> 2 * length (filter (\<lambda>r. Price (row r) < m) (ward_group rs (Ward a))) \<le> n
      \<and> 2 * length (filter (\<lambda>r. m < Price (row r)) (ward_group rs (Ward a))) \<le> n
      \<and> Mean_List_Price a = Fin (sum_list (map (\<lambda>r. Price (row r)) (ward_group rs (Ward a))) / real n)
      \<and> Median_WalkScore a
          = cell (median (non_missing (map (\<lambda>r. walkScore (row r)) (ward_group rs (Ward a)))))
      \<and> ((\<forall>r \<in> set (ward_group rs (Ward a)). walkScore (row r) = None)
            \<longrightarrow> Median_WalkScore a = NaN)
      \<and> ((\<exists>r \<in> set (ward_group rs (Ward a)). walkScore (row r) \<noteq> None)
            \<longrightarrow> (\<exists>v. Median_WalkScore a = Fin v))
      \<and> median [500000, 520000, 600000] = Some 520000
      \<and> median [700000, 720000] = Some 710000"
proof -
  let ?g = "ward_group rs (Ward a)"
  let ?prices = "map (\<lambda>r. Price (row r)) ?g"
  let ?walks = "non_missing (map (\<lambda>r. walkScore (row r)) ?g)"
  let ?n = "length ?g"
  from ward_agg_row [OF assms] have a: "a = agg_of rs (Ward a)"
    and ex: "\<exists>r \<in> set rs. Ward r = Ward a" by blast+
  from ex have "?g \<noteq> []" by (auto simp: ward_group_def filter_empty_conv)
  then have n: "0 < ?n" by simp
  have l: "Listings a = ?n" by (subst a) (simp add: agg_of_def Let_def)
  have pm: "Median_List_Price a = cell (median ?prices)"
    by (subst a) (simp add: agg_of_def Let_def)
  have pa: "Mean_List_Price a = cell (mean ?prices)"
    by (subst a) (simp add: agg_of_def Let_def)
  have wm: "Median_WalkScore a = cell (median ?walks)"
    by (subst a) (simp add: agg_of_def Let_def)
  define m where "m = (let s = sort ?prices
             in if odd ?n then s ! (?n div 2) else (s ! (?n div 2 - 1) + s ! (?n div 2)) / 2)"
  have med: "median ?prices = Some m"
    using n by (simp add: median_def m_def Let_def sort_Nil_iff)
  from median_halves [OF med]
  have h: "2 * length (filter (\<lambda>r. Price (row r) < m) ?g) \<le> ?n"
    "2 * length (filter (\<lambda>r. m < Price (row r)) ?g) \<le> ?n"
    by (simp_all add: filter_map comp_def)
  have mean: "Mean_List_Price a = Fin (sum_list ?prices / real ?n)"
    using n pa by (simp add: mean_def)
  have w0: "Median_WalkScore a = NaN" if "\<forall>r \<in> set ?g. walkScore (row r) = None"
  proof -
    from that have "?walks = []" by (simp add: non_missing_def)
    then show ?thesis using wm by (simp add: median_def)
  qed
  have w1: "\<exists>v. Median_WalkScore a = Fin v" if "\<exists>r \<in> set ?g. walkScore (row r) \<noteq> None"
  proof -
    from that obtain r y where "r \<in> set ?g" "walkScore (row r) = Some y" by auto
    then have "y \<in> set ?walks" by (force simp: set_non_missing)
    then have "?walks \<noteq> []" by auto
    then obtain v where "median ?walks = Some v"
      using median_Some by blast
    then show ?thesis using wm by simp
  qed
  have e1: "median [500000, 520000, 600000] = Some 520000" by (simp add: median_def)
  have e2: "median [700000, 720000] = Some 710000" by (simp add: median_def)
  show ?thesis
    apply (intro exI [of _ ?n] exI [of _ m] conjI)
    using n l pm med h mean wm w0 w1 e1 e2 by (simp_all add: m_def)
qed

theorem ward_agg_statistics_witness:
  "map Ward (fst (main_tables covers_box example_listings example_wards [])) = [1, 2]
    \<and> map Listings (fst (main_tables covers_box example_listings example_wards [])) = [3, 2]
    \<and> map Median_List_Price (fst (main_tables covers_box example_listings example_wards []))
        = [Fin 520000, Fin 710000]
    \<and> map Median_WalkScore (fst (main_tables covers_box example_listings example_wards []))
        = [NaN, Fin 60]
    \<and> (\<exists>v. Median_List_Price
          (hd (fst (main_tables covers_box example_listings example_wards []))) = Fin v)"
proof -
  let ?t = "fst (main_tables covers_box example_listings example_wards [])"
  let ?rs = "assign_ward_to_points covers_box (dropna_listings example_listings) example_wards"
  have t: "?t = ward_agg ?rs" by (rule fst_main_tables)
  have e: "?t = [\<lparr>Ward = 1, Listings = 3, Median_List_Price = Fin 520000,
      Mean_List_Price = Fin 540000, Median_WalkScore = NaN,
      StyleShare = [(''Condo'', NaN), (''House'', NaN)]\<rparr>,
     \<lparr>Ward = 2, Listings = 2, Median_List_Price = Fin 710000, Mean_List_Price = Fin 710000,
      Median_WalkScore = Fin 60, StyleShare = [(''Condo'', Fin (1/2)), (''House'', Fin (1/2))]\<rparr>]"
    by (rule example_ward_agg)
  have h: "hd ?t \<in> set (ward_agg ?rs)" unfolding t [symmetric] by (simp add: e)
  from ward_agg_statistics [OF h] have v: "\<exists>v. Median_List_Price (hd ?t) = Fin v" by blast
  have "map Ward ?t = [1, 2]" "map Listings ?t = [3, 2]"
    "map Median_List_Price ?t = [Fin 520000, Fin 710000]"
    "map Median_WalkScore ?t = [NaN, Fin 60]"
    by (simp_all add: e)
  with v show ?thesis by blast
qed

section \<open>Properties of the style shares\<close>

lemma count_styled:
  "count_list (styled rs) (w, c)
    = length (filter (\<lambda>r. Ward r = w \<and> Listing_Style (row r) = Some c) rs)"
  by (induction rs) (auto simp: styled_def split: option.splits)

lemma length_styled_ward:
  "length (filter (\<lambda>p. fst p = w) (styled rs))
    = length (filter (\<lambda>r. Ward r = w \<and> Listing_Style (row r) \<noteq> None) rs)"
  by (induction rs) (auto simp: styled_def split: option.splits)

lemma set_styled:
  "set (styled rs) = {(Ward r, c) | r c. r \<in> set rs \<and> Listing_Style (row r) = Some c}"
  by (auto simp: styled_def split: option.splits)

lemma sum_indicator:
  "distinct ks \<Longrightarrow>
   sum_list (map (\<lambda>k. if p = k then (1::nat) else 0) (filter Q ks))
     = (if p \<in> set ks \<and> Q p then 1 else 0)"
  by (induction ks) auto

lemma sum_count_filter:
  "distinct ks \<Longrightarrow> set ps \<subseteq> set ks \<Longrightarrow>
   sum_list (map (count_list ps) (filter Q ks)) = length (filter Q ps)"
proof (induction ps)
  case Nil
  then show ?case by simp
next
  case (Cons p ps)
  have "count_list (p # ps) = (\<lambda>k. (if p = k then 1 else 0) + count_list ps k)"
    by (auto simp: fun_eq_iff)
  then have "sum_list (map (count_list (p # ps)) (filter Q ks))
      = sum_list (map (\<lambda>k. if p = k then (1::nat) else 0) (filter Q ks))
        + sum_list (map (count_list ps) (filter Q ks))"
    by (simp only: sum_list_addf)
  also have "\<dots> = (if Q p then 1 else 0) + length (filter Q ps)"
    using Cons by (simp add: sum_indicator)
  also have "\<dots> = length (filter Q (p # ps))" by simp
  finally show ?case .
qed

lemma filter_eq_distinct:
  "distinct ks \<Longrightarrow> filter (\<lambda>k. k = a) ks = (if a \<in> set ks then [a] else [])"
  by (induction ks) (auto simp: filter_empty_conv)

lemma style_counts_eq:
  "style_counts rs = map (\<lambda>k. (fst k, snd k, count_list (styled rs) k)) (sort (remdups (styled rs)))"
  by (simp add: style_counts_def case_prod_beta)

lemma Ward_Total_eq:
  "Ward_Total (style_counts rs) w = length (filter (\<lambda>p. fst p = w) (styled rs))"
proof -
  let ?ks = "sort (remdups (styled rs))"
  have "Ward_Total (style_counts rs) w
      = sum_list (map (count_list (styled rs)) (filter (\<lambda>k. fst k = w) ?ks))"
    by (simp add: Ward_Total_def style_counts_eq filter_map comp_def)
  also have "\<dots> = length (filter (\<lambda>p. fst p = w) (styled rs))"
    by (rule sum_count_filter) simp_all
  finally show ?thesis .
qed

lemma style_shares_eq:
  "style_shares rs =
     map (\<lambda>k. (fst k, snd k, real (count_list (styled rs) k)
                 / real (length (filter (\<lambda>p. fst p = fst k) (styled rs)))))
       (sort (remdups (styled rs)))"
  by (simp add: style_shares_def Let_def Ward_Total_eq) (simp add: style_counts_eq)

lemma pivot_index_set: "set (pivot_index rs) = fst ` set (styled rs)"
  by (auto simp: pivot_index_def style_shares_eq image_iff)

lemma pivot_columns_set: "set (pivot_columns rs) = snd ` set (styled rs)"
  by (auto simp: pivot_columns_def style_shares_eq image_iff)

lemma pivot_columns_distinct: "distinct (pivot_columns rs)"
  by (simp add: pivot_columns_def)

lemma pivot_cell_eq:
  "pivot_cell rs w c = real (count_list (styled rs) (w, c))
     / real (length (filter (\<lambda>p. fst p = w) (styled rs)))"
proof -
  let ?ks = "sort (remdups (styled rs))"
  let ?g = "\<lambda>k. (fst k, snd k, real (count_list (styled rs) k)
                 / real (length (filter (\<lambda>p. fst p = fst k) (styled rs))))"
  have d: "distinct ?ks" by simp
  have f: "filter (\<lambda>(w', c', s). w' = w \<and> c' = c) (style_shares rs)
      = map ?g (filter (\<lambda>k. k = (w, c)) ?ks)"
    by (simp add: style_shares_eq filter_map comp_def prod_eq_iff)
  show ?thesis
  proof (cases "(w, c) \<in> set (styled rs)")
    case True
    then have "filter (\<lambda>k. k = (w, c)) ?ks = [(w, c)]"
      using filter_eq_distinct [OF d, of "(w, c)"] by simp
    then show ?thesis unfolding pivot_cell_def Let_def f by simp
  next
    case False
    then have "filter (\<lambda>k. k = (w, c)) ?ks = []"
      using filter_eq_distinct [OF d, of "(w, c)"] by simp
    moreover from False have "count_list (styled rs) (w, c) = 0"
      by (simp add: count_list_0_iff)
    ultimately show ?thesis unfolding pivot_cell_def Let_def f by simp
  qed
qed

lemma count_snd_filter:
  "count_list (map snd (filter (\<lambda>p. fst p = w) ps)) = (\<lambda>c. count_list ps (w, c))"
proof
  fix c
  show "count_list (map snd (filter (\<lambda>p. fst p = w) ps)) c = count_list ps (w, c)"
    by (induction ps) (auto simp: prod_eq_iff)
qed

lemma sum_counts_columns:
  "sum_list (map (\<lambda>c. count_list (styled rs) (w, c)) (pivot_columns rs))
     = length (filter (\<lambda>p. fst p = w) (styled rs))"
proof -
  let ?ps = "map snd (filter (\<lambda>p. fst p = w) (styled rs))"
  have "sum_list (map (count_list ?ps) (filter (\<lambda>c. True) (pivot_columns rs)))
      = length (filter (\<lambda>c. True) ?ps)"
    by (rule sum_count_filter) (auto simp: pivot_columns_distinct pivot_columns_set)
  then show ?thesis by (simp add: count_snd_filter)
qed

lemma sum_list_divide:
  fixes f :: "'a \<Rightarrow> nat"
  shows "sum_list (map (\<lambda>x. real (f x) / t) xs) = real (sum_list (map f xs)) / t"
  by (induction xs) (simp_all add: add_divide_distrib)

lemma sum_cells:
  assumes "w \<in> set (pivot_index rs)"
  shows "sum_list (map (pivot_cell rs w) (pivot_columns rs)) = 1"
proof -
  from assms have "filter (\<lambda>p. fst p = w) (styled rs) \<noteq> []"
    by (auto simp: pivot_index_set filter_empty_conv)
  then have pos: "0 < length (filter (\<lambda>p. fst p = w) (styled rs))" by simp
  have "pivot_cell rs w = (\<lambda>c. real (count_list (styled rs) (w, c))
     / real (length (filter (\<lambda>p. fst p = w) (styled rs))))"
    by (rule ext) (rule pivot_cell_eq)
  then show ?thesis
    using pos by (simp add: sum_list_divide sum_counts_columns)
qed

lemma pivot_columns_eq:
  "pivot_columns rs = sort (remdups (non_missing (map (\<lambda>r. Listing_Style (row r)) rs)))"
proof (rule sorted_distinct_set_unique)
  have "snd ` set (styled rs) = set (non_missing (map (\<lambda>r. Listing_Style (row r)) rs))"
    by (auto simp: set_styled non_missing_def image_iff split: option.splits)
  then show "set (pivot_columns rs)
      = set (sort (remdups (non_missing (map (\<lambda>r. Listing_Style (row r)) rs))))"
    by (simp add: pivot_columns_set)
qed (simp_all add: pivot_columns_def)

lemma style_cells_in_index:
  "w \<in> set (pivot_index rs) \<longleftrightarrow> (\<exists>r \<in> set rs. Ward r = w \<and> Listing_Style (row r) \<noteq> None)"
  by (auto simp: pivot_index_set set_styled image_iff)

text \<open>
  C5. The claim fails for a ward none of whose listings has a style. In the example
  ward 1 has three listings without a style, and the styles Condo and House occur in
  ward 2: the cells of ward 1 in the two columns are missing values, not 0.0, and they
  do not sum to 1.
\<close>

theorem ward_without_style_counterexample:
  "map Listings (fst (main_tables covers_box example_listings example_wards [])) = [3, 2]
    \<and> map StyleShare (fst (main_tables covers_box example_listings example_wards []))
        = [[(''Condo'', NaN), (''House'', NaN)], [(''Condo'', Fin (1/2)), (''House'', Fin (1/2))]]
    \<and> NaN \<noteq> Fin 0"
  by (simp add: example_ward_agg)

text \<open>
  C5, as amended. Every row of the aggregate table has one cell for each style that
  occurs among the assigned listings, in the same order in every row. In the row of a
  ward that has at least one listing with a style, the cell of a style is the number of
  the ward's listings of that style over the number of the ward's listings that have a
  style, so it is 0 for a style that does not occur in the ward, and the cells sum to 1
  (in exact arithmetic: rounding is not modelled).
\<close>

theorem style_shares_of_ward:
  assumes "a \<in> set (ward_agg rs)"
  shows "map fst (StyleShare a)
        = sort (remdups (non_missing (map (\<lambda>r. Listing_Style (row r)) rs)))
    \<and> ((\<exists>r \<in> set rs. Ward r = Ward a \<and> Listing_Style (row r) \<noteq> None) \<longrightarrow>
          (\<forall>c v. (c, v) \<in> set (StyleShare a) \<longrightarrow>
             v = Fin (real (length (filter (\<lambda>r. Ward r = Ward a \<and> Listing_Style (row r) = Some c) rs))
                    / real (length (filter (\<lambda>r. Ward r = Ward a \<and> Listing_Style (row r) \<noteq> None) rs))))
        \<and> (\<forall>c v. (c, v) \<in> set (StyleShare a)
              \<and> (\<forall>r \<in> set rs. Ward r = Ward a \<longrightarrow> Listing_Style (row r) \<noteq> Some c)
              \<longrightarrow> v = Fin 0)
        \<and> sum_list (map (\<lambda>p. fval (snd p)) (StyleShare a)) = 1)"
proof -
  let ?w = "Ward a"
  from ward_agg_row [OF assms] have a: "a = agg_of rs ?w" by blast
  have ss: "StyleShare a = style_cells rs ?w" by (subst a) (simp add: agg_of_def Let_def)
  have cols: "map fst (StyleShare a) = pivot_columns rs"
    by (simp add: ss style_cells_def comp_def)
  have in_case: "(\<forall>c v. (c, v) \<in> set (StyleShare a) \<longrightarrow>
             v = Fin (real (length (filter (\<lambda>r. Ward r = ?w \<and> Listing_Style (row r) = Some c) rs))
                    / real (length (filter (\<lambda>r. Ward r = ?w \<and> Listing_Style (row r) \<noteq> None) rs))))
        \<and> (\<forall>c v. (c, v) \<in> set (StyleShare a)
              \<and> (\<forall>r \<in> set rs. Ward r = ?w \<longrightarrow> Listing_Style (row r) \<noteq> Some c)
              \<longrightarrow> v = Fin 0)
        \<and> sum_list (map (\<lambda>p. fval (snd p)) (StyleShare a)) = 1"
    if "\<exists>r \<in> set rs. Ward r = ?w \<and> Listing_Style (row r) \<noteq> None"
  proof -
    from that have idx: "?w \<in> set (pivot_index rs)" by (simp add: style_cells_in_index)
    then have sc: "StyleShare a = map (\<lambda>c. (c, Fin (pivot_cell rs ?w c))) (pivot_columns rs)"
      by (simp add: ss style_cells_def)
    have cell: "pivot_cell rs ?w c
        = real (length (filter (\<lambda>r. Ward r = ?w \<and> Listing_Style (row r) = Some c) rs))
          / real (length (filter (\<lambda>r. Ward r = ?w \<and> Listing_Style (row r) \<noteq> None) rs))" for c
      by (simp add: pivot_cell_eq count_styled length_styled_ward)
    have p1: "\<forall>c v. (c, v) \<in> set (StyleShare a) \<longrightarrow>
             v = Fin (real (length (filter (\<lambda>r. Ward r = ?w \<and> Listing_Style (row r) = Some c) rs))
                    / real (length (filter (\<lambda>r. Ward r = ?w \<and> Listing_Style (row r) \<noteq> None) rs)))"
      unfolding sc by (auto simp: cell)
    have p2: "\<forall>c v. (c, v) \<in> set (StyleShare a)
              \<and> (\<forall>r \<in> set rs. Ward r = ?w \<longrightarrow> Listing_Style (row r) \<noteq> Some c)
              \<longrightarrow> v = Fin 0"
    proof (intro allI impI)
      fix c v
      assume h: "(c, v) \<in> set (StyleShare a)
              \<and> (\<forall>r \<in> set rs. Ward r = ?w \<longrightarrow> Listing_Style (row r) \<noteq> Some c)"
      then have z: "filter (\<lambda>r. Ward r = ?w \<and> Listing_Style (row r) = Some c) rs = []"
        by (auto simp: filter_empty_conv)
      have "pivot_cell rs ?w c = 0" by (simp add: pivot_cell_eq count_styled z)
      moreover from h have "v = Fin (pivot_cell rs ?w c)" unfolding sc by auto
      ultimately show "v = Fin 0" by simp
    qed
    have "map (\<lambda>p. fval (snd p)) (StyleShare a) = map (pivot_cell rs ?w) (pivot_columns rs)"
      unfolding sc by (simp add: comp_def)
    then have p3: "sum_list (map (\<lambda>p. fval (snd p)) (StyleShare a)) = 1"
      using sum_cells [OF idx] by simp
    from p1 p2 p3 show ?thesis by blast
  qed
  from cols in_case show ?thesis unfolding pivot_columns_eq by blast
qed

theorem style_shares_of_ward_witness:
  "map StyleShare (fst (main_tables covers_box example_listings example_wards []))
      = [[(''Condo'', NaN), (''House'', NaN)], [(''Condo'', Fin (1/2)), (''House'', Fin (1/2))]]
    \<and> sum_list (map (\<lambda>p. fval (snd p))
         (StyleShare (last (fst (main_tables covers_box example_listings example_wards []))))) = 1"
proof -
  let ?t = "fst (main_tables covers_box example_listings example_wards [])"
  let ?rs = "assign_ward_to_points covers_box (dropna_listings example_listings) example_wards"
  have t: "?t = ward_agg ?rs" by (rule fst_main_tables)
  have e: "?t = [\<lparr>Ward = 1, Listings = 3, Median_List_Price = Fin 520000,
      Mean_List_Price = Fin 540000, Median_WalkScore = NaN,
      StyleShare = [(''Condo'', NaN), (''House'', NaN)]\<rparr>,
     \<lparr>Ward = 2, Listings = 2, Median_List_Price = Fin 710000, Mean_List_Price = Fin 710000,
      Median_WalkScore = Fin 60, StyleShare = [(''Condo'', Fin (1/2)), (''House'', Fin (1/2))]\<rparr>]"
    by (rule example_ward_agg)
  have h: "last ?t \<in> set (ward_agg ?rs)" unfolding t [symmetric] by (simp add: e)
  have w: "Ward (last ?t) = 2" by (simp add: e)
  have x: "\<exists>r \<in> set ?rs. Ward r = Ward (last ?t) \<and> Listing_Style (row r) \<noteq> None"
    unfolding w by (simp add: example_assigned styled_listing_def)
  from style_shares_of_ward [OF h] x
  have "sum_list (map (\<lambda>p. fval (snd p)) (StyleShare (last ?t))) = 1" by blast
  moreover have "map StyleShare ?t
      = [[(''Condo'', NaN), (''House'', NaN)], [(''Condo'', Fin (1/2)), (''House'', Fin (1/2))]]"
    by (simp add: e)
  ultimately show ?thesis by blast
qed

end
